theory Spec2Isabelle
  imports Main "HOL-Library.Sublist"
begin

section \<open>Text helpers of the Go standard library\<close>

text \<open>
  A Go string is a byte sequence; it is modelled as a \<open>string\<close> (a list of 8-bit characters).
  The editor text is taken to be ASCII, where Go's \<open>unicode.IsSpace\<close> holds of exactly the
  six characters tab, line feed, vertical tab, form feed, carriage return and blank.
\<close>

definition isSpace :: "char \<Rightarrow> bool" where
  "isSpace c \<longleftrightarrow>
     c = CHR 0x09 \<or> c = CHR 0x0A \<or> c = CHR 0x0B \<or> c = CHR 0x0C \<or> c = CHR 0x0D \<or> c = CHR 0x20"

text \<open>\<open>strings.TrimSpace\<close>: leading and trailing white space removed.\<close>

definition TrimSpace :: "string \<Rightarrow> string" where
  "TrimSpace s = rev (dropWhile isSpace (rev (dropWhile isSpace s)))"

text \<open>
  \<open>strings.Fields\<close>: the maximal runs of non-space characters, in order. \<open>fieldsFrom\<close> is
  the scan with the field being read (reversed) as accumulator.
\<close>

fun fieldsFrom :: "string \<Rightarrow> string \<Rightarrow> string list" where
  "fieldsFrom acc [] = (if acc = [] then [] else [rev acc])"
| "fieldsFrom acc (c # cs) =
     (if isSpace c
      then (if acc = [] then fieldsFrom [] cs else rev acc # fieldsFrom [] cs)
      else fieldsFrom (c # acc) cs)"

definition Fields :: "string \<Rightarrow> string list" where
  "Fields s = fieldsFrom [] s"

text \<open>\<open>strings.HasPrefix(s, prefix)\<close>.\<close>

definition HasPrefix :: "string \<Rightarrow> string \<Rightarrow> bool" where
  "HasPrefix s p \<longleftrightarrow> take (length p) s = p"

text \<open>
  \<open>strings.Split(s, sep)\<close> and \<open>strings.Join(elems, sep)\<close> for a separator of one character
  (the code only ever splits and joins on the line feed). Splitting never returns the empty
  list: the empty text splits into one empty line.
\<close>

fun Split :: "string \<Rightarrow> char \<Rightarrow> string list" where
  "Split [] sep = [[]]"
| "Split (c # cs) sep =
     (if c = sep then [] # Split cs sep
      else (case Split cs sep of [] \<Rightarrow> [[c]] | x # xs \<Rightarrow> (c # x) # xs))"

fun Join :: "string list \<Rightarrow> char \<Rightarrow> string" where
  "Join [] sep = []"
| "Join [x] sep = x"
| "Join (x # y # ys) sep = x @ sep # Join (y # ys) sep"

abbreviation LF :: char where
  "LF \<equiv> CHR 0x0A"

section \<open>The assembler's instruction tables\<close>

text \<open>
  \<open>assembler.InstructionToOpType\<close> and \<open>assembler.PseudoToInstruction\<close> belong to the external
  assembler package. The editor only tests membership in the first one and, for the second
  one, calls the stored function on the tokens of the line and takes the length of the
  result. Both tables are parameters of every function below.
\<close>

record ('op, 'ins) tables =
  InstructionToOpType :: "string \<rightharpoonup> 'op"
  PseudoToInstruction :: "string \<rightharpoonup> (string list \<Rightarrow> 'ins list)"

section \<open>Mapping an instruction number to a line (theme.go)\<close>

text \<open>
  The loop of \<open>getRelevantLine\<close>, with the loop variables \<open>i\<close>, \<open>instructionCount\<close> and
  \<open>nBreaks\<close> as arguments. Go's \<open>int\<close> is modelled as \<open>int\<close>: the counters are bounded by the
  size of the text and never come near 64 bits.
\<close>

fun getRelevantLine_loop ::
  "('op, 'ins) tables \<Rightarrow> int \<Rightarrow> nat \<Rightarrow> int \<Rightarrow> int \<Rightarrow> string list \<Rightarrow> int \<times> int" where
  "getRelevantLine_loop T lineNum i instructionCount nBreaks [] = (- 1, nBreaks)"
| "getRelevantLine_loop T lineNum i instructionCount nBreaks (line # rest) =
     (let trimmedLine = TrimSpace line in
      if trimmedLine = [] \<or> HasPrefix trimmedLine ''#'' \<or> HasPrefix trimmedLine ''//''
      then getRelevantLine_loop T lineNum (Suc i) instructionCount nBreaks rest
      else
        let parts = Fields trimmedLine in
        if length parts > 0 then
          (let isInstruction = (InstructionToOpType T (parts ! 0) \<noteq> None);
               isInstruction2 = (PseudoToInstruction T (parts ! 0) \<noteq> None)
           in
             if isInstruction \<or> isInstruction2 then
               (if instructionCount + 1 = lineNum then (int i, nBreaks)
                else getRelevantLine_loop T lineNum (Suc i)
                       (case PseudoToInstruction T (parts ! 0) of
                          None \<Rightarrow> instructionCount + 1
                        | Some retFunc \<Rightarrow> instructionCount + 1 + (int (length (retFunc parts)) - 1))
                       (if parts ! 0 = ''ebreak'' then nBreaks + 1 else nBreaks)
                       rest)
             else getRelevantLine_loop T lineNum (Suc i) instructionCount nBreaks rest)
        else getRelevantLine_loop T lineNum (Suc i) instructionCount nBreaks rest)"

definition getRelevantLine :: "('op, 'ins) tables \<Rightarrow> int \<Rightarrow> string list \<Rightarrow> int \<times> int" where
  "getRelevantLine T lineNum lines = getRelevantLine_loop T lineNum 0 0 0 lines"

text \<open>
  The globals of the debugger that the functions below read and write (\<open>breakpoints\<close> is the
  field of \<open>debugInfo\<close>, a Go \<open>map[int]bool\<close>), and what \<open>HighlightLine\<close> does to the editor:
  the block the text cursor is moved to, and the number of repaint requests sent to the line
  number area.
\<close>

record session =
  debugFileSplit :: "string list"
  realFileSplit :: "string list"
  currentHighline :: int
  breakpoints :: "int \<rightharpoonup> bool"
  cursorBlock :: int
  lineNumberAreaUpdates :: nat

definition HighlightLine :: "('op, 'ins) tables \<Rightarrow> int \<Rightarrow> session \<Rightarrow> session" where
  "HighlightLine T lineNum s =
     (let s0 = s\<lparr>currentHighline := - 1\<rparr>;
          (realFileVal, realBreaks) = getRelevantLine T lineNum (realFileSplit s0);
          (_, debugBreaks) = getRelevantLine T lineNum (debugFileSplit s0);
          s1 = s0\<lparr>currentHighline := realFileVal + (realBreaks - debugBreaks)\<rparr>
      in if currentHighline s1 < 1 then s1
         else s1\<lparr>cursorBlock := currentHighline s1,
                 lineNumberAreaUpdates := Suc (lineNumberAreaUpdates s1)\<rparr>)"

text \<open>
  The test of \<open>lineNumberAreaPaint\<close> for painting the block with number \<open>blockNumber\<close> (block
  numbers start at 0) as the current line of the debugger.
\<close>

definition paintsHighlight :: "bool \<Rightarrow> session \<Rightarrow> nat \<Rightarrow> bool" where
  "paintsHighlight isDebugging s blockNumber \<longleftrightarrow>
     isDebugging \<and> int blockNumber = currentHighline s"

section \<open>Recent files (preferences.go)\<close>

record UserPreferences =
  LastOpenedProject :: string
  RecentFiles :: "string list"

text \<open>
  The search loop of \<open>AddRecentFile\<close>: the index of the first entry equal to the path.
\<close>

fun findRecent :: "string \<Rightarrow> nat \<Rightarrow> string list \<Rightarrow> nat option" where
  "findRecent filePath i [] = None"
| "findRecent filePath i (path # rest) =
     (if path = filePath then Some i else findRecent filePath (Suc i) rest)"

text \<open>
  \<open>SavePreferences\<close> writes the preferences to disk and leaves them unchanged in memory;
  its error is dropped by \<open>AddRecentFile\<close>.
\<close>

definition AddRecentFile :: "string \<Rightarrow> UserPreferences \<Rightarrow> UserPreferences" where
  "AddRecentFile filePath preferences =
     (case findRecent filePath 0 (RecentFiles preferences) of
        Some i \<Rightarrow>
          preferences\<lparr>RecentFiles :=
            [filePath] @ (take i (RecentFiles preferences) @ drop (i + 1) (RecentFiles preferences))\<rparr>
      | None \<Rightarrow>
          (let added = [filePath] @ RecentFiles preferences
           in preferences\<lparr>RecentFiles := (if length added > 10 then take 10 added else added)\<rparr>))"

section \<open>Building the text with the traps\<close>

text \<open>Reading a Go \<open>map[int]bool\<close> at a key: \<open>false\<close> when the key is absent.\<close>

definition mapIndex :: "(int \<rightharpoonup> bool) \<Rightarrow> int \<Rightarrow> bool" where
  "mapIndex m k = (case m k of None \<Rightarrow> False | Some b \<Rightarrow> b)"

text \<open>
  The loop of \<open>debugCode\<close> (theme.go; \<open>hotReloadCode\<close> has the same loop), with the loop
  variable \<open>lineIndex\<close> and the string builder \<open>modifiedContent\<close> as arguments.
\<close>

fun debugCode_loop ::
  "('op, 'ins) tables \<Rightarrow> (int \<rightharpoonup> bool) \<Rightarrow> nat \<Rightarrow> string list \<Rightarrow> string \<Rightarrow> string" where
  "debugCode_loop T bps lineIndex [] modifiedContent = modifiedContent"
| "debugCode_loop T bps lineIndex (line # rest) modifiedContent =
     (let trimmedLine = TrimSpace line;
          written =
            (if trimmedLine \<noteq> [] \<and> \<not> HasPrefix trimmedLine ''#'' \<and> \<not> HasPrefix trimmedLine ''//''
             then
               (let parts = Fields trimmedLine in
                if length parts > 0 then
                  (let isInstruction = (InstructionToOpType T (parts ! 0) \<noteq> None);
                       isInstruction2 = (PseudoToInstruction T (parts ! 0) \<noteq> None)
                   in
                     if (isInstruction \<or> isInstruction2) \<and> mapIndex bps (int lineIndex)
                     then modifiedContent @ ''ebreak'' @ [LF]
                     else modifiedContent)
                else modifiedContent)
             else modifiedContent)
      in debugCode_loop T bps (Suc lineIndex) rest (written @ line @ [LF]))"

text \<open>The text written to the temporary file that is assembled.\<close>

definition debugFileContent :: "('op, 'ins) tables \<Rightarrow> (int \<rightharpoonup> bool) \<Rightarrow> string \<Rightarrow> string" where
  "debugFileContent T bps editorText = debugCode_loop T bps 0 (Split editorText LF) []"

text \<open>
  The part of \<open>debugCode\<close> that prepares the session: the two line lists of the mapping.
  Creating the directory, assembling and loading the program are not modelled.
\<close>

definition debugCode :: "('op, 'ins) tables \<Rightarrow> string \<Rightarrow> session \<Rightarrow> session" where
  "debugCode T editorText s =
     s\<lparr>debugFileSplit := Split (debugFileContent T (breakpoints s) editorText) LF,
       realFileSplit := Split editorText LF\<rparr>"

text \<open>
  \<open>insertBreakpoints\<close> of the second front end (copy.txt). Its loop visits every key of the
  breakpoint map once and changes the line at that index when the key is an index of the
  text, so the line at index \<open>lineNum\<close> is changed exactly when \<open>lineNum\<close> is a key.
  \<open>debugAsmContent\<close> is the text written to \<open>debug.asm\<close>; writing and assembling are not
  modelled.
\<close>

datatype error = NoFileOpen

definition debugAsmContent :: "(int \<rightharpoonup> bool) \<Rightarrow> string \<Rightarrow> string" where
  "debugAsmContent bps editorText =
     (let lines = Split editorText LF;
          tempLines =
            map (\<lambda>(lineNum, line).
                   if bps (int lineNum) \<noteq> None then ''ebreak'' @ [LF] @ line else line)
                (enumerate 0 lines)
      in Join tempLines LF)"

definition insertBreakpoints :: "string \<Rightarrow> (int \<rightharpoonup> bool) \<Rightarrow> string \<Rightarrow> error + string" where
  "insertBreakpoints currentFile bps editorText =
     (if currentFile = [] then Inl NoFileOpen else Inr (debugAsmContent bps editorText))"

section \<open>Notions of the specification\<close>

text \<open>
  An instruction-bearing line: the test that \<open>getRelevantLine\<close> and \<open>debugCode\<close> both make.
\<close>

definition instructionBearing :: "('op, 'ins) tables \<Rightarrow> string \<Rightarrow> bool" where
  "instructionBearing T line =
     (let trimmedLine = TrimSpace line; parts = Fields trimmedLine in
        (if trimmedLine = [] then False
         else if HasPrefix trimmedLine ''#'' then False
         else if HasPrefix trimmedLine ''//'' then False
         else if length parts > 0
           then (if InstructionToOpType T (parts ! 0) = None
                 then (if PseudoToInstruction T (parts ! 0) = None then False else True)
                 else True)
           else False))"

text \<open>The mnemonic of a line: its first token.\<close>

definition mnemonic :: "string \<Rightarrow> string" where
  "mnemonic line = Fields (TrimSpace line) ! 0"

text \<open>
  The number of real instructions of an instruction-bearing line: one, or the length of the
  expansion when the mnemonic is in the table of pseudo-instructions.
\<close>

definition expansion :: "('op, 'ins) tables \<Rightarrow> string \<Rightarrow> int" where
  "expansion T line =
     (case PseudoToInstruction T (mnemonic line) of
        None \<Rightarrow> 1
      | Some retFunc \<Rightarrow> int (length (retFunc (Fields (TrimSpace line)))))"

text \<open>The total instruction count of a line sequence.\<close>

fun instructionTotal :: "('op, 'ins) tables \<Rightarrow> string list \<Rightarrow> int" where
  "instructionTotal T [] = 0"
| "instructionTotal T (line # rest) =
     (if instructionBearing T line then expansion T line else 0) + instructionTotal T rest"

text \<open>A trap line: an instruction-bearing line whose mnemonic is the trap literal.\<close>

definition trapLine :: "('op, 'ins) tables \<Rightarrow> string \<Rightarrow> bool" where
  "trapLine T line = (if instructionBearing T line then mnemonic line = ''ebreak'' else False)"

definition trapCount :: "('op, 'ins) tables \<Rightarrow> string list \<Rightarrow> int" where
  "trapCount T lines = int (length (filter (trapLine T) lines))"

text \<open>
  Line \<open>j\<close> starts the \<open>k\<close>-th real instruction: it is instruction-bearing and the lines
  before it hold \<open>k - 1\<close> real instructions.
\<close>

definition startsAt :: "('op, 'ins) tables \<Rightarrow> int \<Rightarrow> string list \<Rightarrow> nat \<Rightarrow> bool" where
  "startsAt T k lines j =
     (if instructionBearing T (lines ! j) then instructionTotal T (take j lines) + 1 = k else False)"

text \<open>
  The specification's words for the scanner: at line \<open>j\<close> the running instruction counter
  reaches or passes \<open>k\<close>, that is, the lines up to and including the instruction-bearing
  line \<open>j\<close> hold at least \<open>k\<close> real instructions.
\<close>

definition reachesOrPasses :: "('op, 'ins) tables \<Rightarrow> int \<Rightarrow> string list \<Rightarrow> nat \<Rightarrow> bool" where
  "reachesOrPasses T k lines j =
     (if instructionBearing T (lines ! j) then k \<le> instructionTotal T (take (Suc j) lines) else False)"

text \<open>
  A line list with one trap line put immediately before each line that satisfies \<open>P\<close> (a
  test of the index and the line); \<open>i\<close> is the index of the first line.
\<close>

fun withTraps :: "(nat \<Rightarrow> string \<Rightarrow> bool) \<Rightarrow> nat \<Rightarrow> string list \<Rightarrow> string list" where
  "withTraps P i [] = []"
| "withTraps P i (line # rest) =
     (if P i line then ''ebreak'' # line # withTraps P (Suc i) rest
      else line # withTraps P (Suc i) rest)"

text \<open>The number of lines of a list that satisfy a test of the index and the line.\<close>

definition countLines :: "(nat \<Rightarrow> string \<Rightarrow> bool) \<Rightarrow> string list \<Rightarrow> nat" where
  "countLines P lines = length (filter (\<lambda>i. P i (lines ! i)) [0..<length lines])"

text \<open>The lines that \<open>debugCode\<close> precedes with a trap, and those of \<open>insertBreakpoints\<close>.\<close>

definition trapBefore :: "('op, 'ins) tables \<Rightarrow> (int \<rightharpoonup> bool) \<Rightarrow> nat \<Rightarrow> string \<Rightarrow> bool" where
  "trapBefore T bps i line = (if instructionBearing T line then mapIndex bps (int i) else False)"

definition isKey :: "(int \<rightharpoonup> bool) \<Rightarrow> nat \<Rightarrow> string \<Rightarrow> bool" where
  "isKey bps i line = (case bps (int i) of None \<Rightarrow> False | Some b \<Rightarrow> True)"

text \<open>
  The assumptions on the external tables: a pseudo-instruction lowers to one or more real
  instructions, and the trap mnemonic is not a pseudo-instruction.
\<close>

definition expansionsNonEmpty :: "('op, 'ins) tables \<Rightarrow> bool" where
  "expansionsNonEmpty T =
     (\<forall>m retFunc parts. PseudoToInstruction T m = Some retFunc \<longrightarrow> retFunc parts \<noteq> [])"

definition trapIsReal :: "('op, 'ins) tables \<Rightarrow> bool" where
  "trapIsReal T = (PseudoToInstruction T ''ebreak'' = None)"

text \<open>A session before debugging starts, with the given breakpoint map.\<close>

definition idleSession :: "(int \<rightharpoonup> bool) \<Rightarrow> session" where
  "idleSession bps =
     \<lparr>debugFileSplit = [], realFileSplit = [], currentHighline = - 1, breakpoints = bps,
      cursorBlock = 0, lineNumberAreaUpdates = 0\<rparr>"

text \<open>
  Tables for the examples: three real instructions, and two pseudo-instructions of which
  \<open>la\<close> lowers to two real instructions.
\<close>

definition exampleTables :: "(unit, string) tables" where
  "exampleTables =
     \<lparr>InstructionToOpType = [''ebreak'' \<mapsto> (), ''ecall'' \<mapsto> (), ''addi'' \<mapsto> ()],
      PseudoToInstruction =
        [''la'' \<mapsto> (\<lambda>parts. [''auipc'', ''addi'']), ''li'' \<mapsto> (\<lambda>parts. [''addi''])]\<rparr>"

section \<open>Facts about splitting and joining\<close>

lemma Split_not_Nil: "Split s c \<noteq> []"
  by (induction s) (auto split: list.splits)

lemma Split_no_sep: "l \<in> set (Split s c) \<Longrightarrow> c \<notin> set l"
proof (induction s arbitrary: l)
  case Nil
  then show ?case by simp
next
  case (Cons a s)
  then show ?case
    by (cases "Split s c") (auto split: if_splits)
qed

lemma Split_append_sep: "c \<notin> set l \<Longrightarrow> Split (l @ c # rest) c = l # Split rest c"
  by (induction l) auto

lemma Split_sep_free: "c \<notin> set l \<Longrightarrow> Split l c = [l]"
  by (induction l) auto

lemma Split_terminated:
  "(\<And>l. l \<in> set L \<Longrightarrow> c \<notin> set l) \<Longrightarrow> Split (concat (map (\<lambda>l. l @ [c]) L)) c = L @ [[]]"
  by (induction L) (simp_all add: Split_append_sep)

lemma Join_Split: "Join (Split s c) c = s"
proof (induction s)
  case Nil
  then show ?case by simp
next
  case (Cons a s)
  show ?case
  proof (cases "Split s c")
    case Nil
    then show ?thesis using Split_not_Nil by blast
  next
    case (Cons x xs)
    with Cons.IH show ?thesis by (cases xs) auto
  qed
qed

lemma Join_Cons: "ys \<noteq> [] \<Longrightarrow> Join (x # ys) c = x @ c # Join ys c"
  by (cases ys) auto

section \<open>Facts about the loops\<close>

text \<open>One iteration of each loop, in the notions of the specification.\<close>

lemma getRelevantLine_loop_Cons:
  "getRelevantLine_loop T k i ic nb (line # rest) =
     (if \<not> instructionBearing T line then getRelevantLine_loop T k (Suc i) ic nb rest
      else if ic + 1 = k then (int i, nb)
      else getRelevantLine_loop T k (Suc i) (ic + expansion T line)
             (nb + (if trapLine T line then 1 else 0)) rest)"
  by (simp add: instructionBearing_def expansion_def trapLine_def mnemonic_def Let_def
           split: option.splits)

lemma debugCode_loop_Cons:
  "debugCode_loop T bps i (line # rest) acc =
     debugCode_loop T bps (Suc i) rest
       (acc @ (if trapBefore T bps i line then ''ebreak'' @ [LF] else []) @ line @ [LF])"
  by (simp add: instructionBearing_def trapBefore_def Let_def)

declare getRelevantLine_loop.simps(2) [simp del]
declare debugCode_loop.simps(2) [simp del]

subsection \<open>The builders\<close>

lemma length_withTraps:
  "length (withTraps P i ls) = length ls + length (filter (\<lambda>j. P (i + j) (ls ! j)) [0..<length ls])"
proof (induction ls arbitrary: i)
  case Nil
  then show ?case by simp
next
  case (Cons l ls)
  have "[0..<length (l # ls)] = 0 # map Suc [0..<length ls]"
    by (simp add: upt_conv_Cons map_Suc_upt del: upt_Suc)
  then show ?case
    by (simp add: Cons.IH filter_map comp_def del: upt_Suc)
qed

lemma subseq_withTraps: "subseq ls (withTraps P i ls)"
  by (induction ls arbitrary: i) auto

lemma withTraps_none: "(\<And>j l. \<not> P j l) \<Longrightarrow> withTraps P i ls = ls"
  by (induction ls arbitrary: i) auto

lemma debugCode_loop_eq:
  "debugCode_loop T bps i ls acc =
     acc @ concat (map (\<lambda>l. l @ [LF]) (withTraps (trapBefore T bps) i ls))"
proof (induction ls arbitrary: i acc)
  case Nil
  then show ?case by simp
next
  case (Cons l ls)
  show ?case
    unfolding debugCode_loop_Cons Cons.IH by simp
qed

lemma set_withTraps: "set (withTraps P i ls) \<subseteq> insert ''ebreak'' (set ls)"
  by (induction ls arbitrary: i) auto

lemma Split_debugAsm_lines:
  assumes f: "\<And>n l. f (n, l) = (if isKey bps n l then ''ebreak'' @ LF # l else l)"
  shows "ls \<noteq> [] \<Longrightarrow> (\<And>l. l \<in> set ls \<Longrightarrow> LF \<notin> set l) \<Longrightarrow>
         Split (Join (map f (enumerate i ls)) LF) LF = withTraps (isKey bps) i ls"
proof (induction ls arbitrary: i)
  case Nil
  then show ?case by simp
next
  case (Cons l ls)
  have l: "LF \<notin> set l" using Cons.prems(2) by simp
  have e: "Split (''ebreak'' @ LF # r) LF = ''ebreak'' # Split r LF" for r
    by (rule Split_append_sep) simp
  show ?case
  proof (cases "ls = []")
    case True
    with l e [of l] show ?thesis
      by (simp add: f Split_sep_free)
  next
    case False
    then have ne: "map f (enumerate (Suc i) ls) \<noteq> []" by (cases ls) simp_all
    have IH: "Split (Join (map f (enumerate (Suc i) ls)) LF) LF = withTraps (isKey bps) (Suc i) ls"
      using Cons.IH [OF False] Cons.prems(2) by simp
    have "Split (f (i, l) @ LF # r) LF = (if isKey bps i l then [''ebreak'', l] else [l]) @ Split r LF" for r
      using l e [of "l @ LF # r"] by (simp add: f Split_append_sep)
    then show ?thesis
      using IH by (simp add: Join_Cons [OF ne])
  qed
qed

lemma Split_debugAsmContent:
  "Split (debugAsmContent bps text) LF = withTraps (isKey bps) 0 (Split text LF)"
  unfolding debugAsmContent_def Let_def
  by (rule Split_debugAsm_lines) (auto simp: isKey_def Split_not_Nil dest: Split_no_sep split: option.splits)

lemma insertBreakpoints_open:
  "currentFile \<noteq> [] \<Longrightarrow>
   insertBreakpoints currentFile bps text = Inr (debugAsmContent bps text)"
  by (simp add: insertBreakpoints_def)

lemma trapBefore_isKey: "trapBefore T bps i l \<Longrightarrow> isKey bps i l"
  by (auto simp: trapBefore_def isKey_def mapIndex_def split: option.splits if_splits)

lemma debugAsmContent_empty: "debugAsmContent Map.empty text = text"
proof -
  have "(\<lambda>(lineNum :: nat, line :: string). line) = snd"
    by (simp add: fun_eq_iff)
  then have "map (\<lambda>(lineNum, line). line) (enumerate 0 ls) = ls" for ls :: "string list"
    by simp
  then show ?thesis
    by (simp add: debugAsmContent_def Join_Split)
qed

subsection \<open>The scanner\<close>

lemma expansion_nonneg: "0 \<le> expansion T l"
  by (simp add: expansion_def split: option.splits)

lemma expansion_pos: "expansionsNonEmpty T \<Longrightarrow> 1 \<le> expansion T l"
  by (auto simp: expansion_def expansionsNonEmpty_def Suc_le_eq split: option.splits)

lemma instructionTotal_nonneg: "0 \<le> instructionTotal T ls"
  by (induction ls) (auto simp: expansion_nonneg)

lemma trapCount_Nil: "trapCount T [] = 0"
  by (simp add: trapCount_def)

lemma trapCount_Cons: "trapCount T (l # ls) = (if trapLine T l then 1 else 0) + trapCount T ls"
  by (simp add: trapCount_def)

lemma trapLine_bearing: "trapLine T l \<Longrightarrow> instructionBearing T l"
  by (simp add: trapLine_def split: if_splits)

lemma trapCount_le_total: "expansionsNonEmpty T \<Longrightarrow> trapCount T ls \<le> instructionTotal T ls"
proof (induction ls)
  case Nil
  then show ?case by (simp add: trapCount_Nil)
next
  case (Cons l ls)
  then show ?case
    using expansion_pos [of T l] expansion_nonneg [of T l]
    by (auto simp: trapCount_Cons dest: trapLine_bearing)
qed

lemma instructionTotal_take_mono:
  "a \<le> b \<Longrightarrow> instructionTotal T (take a ls) \<le> instructionTotal T (take b ls)"
proof (induction ls arbitrary: a b)
  case Nil
  then show ?case by simp
next
  case (Cons l ls)
  show ?case
  proof (cases a)
    case 0
    then show ?thesis by (simp add: instructionTotal_nonneg)
  next
    case (Suc a')
    with Cons.prems obtain b' where "b = Suc b'" "a' \<le> b'" by (cases b) auto
    with Suc Cons.IH [of a' b'] show ?thesis by simp
  qed
qed

lemma loop_beyond:
  "expansionsNonEmpty T \<Longrightarrow> ic + instructionTotal T ls < k \<Longrightarrow>
   getRelevantLine_loop T k i ic nb ls = (- 1, nb + trapCount T ls)"
proof (induction ls arbitrary: i ic nb)
  case Nil
  then show ?case by (simp add: trapCount_Nil)
next
  case (Cons l ls)
  show ?case
  proof (cases "instructionBearing T l")
    case False
    with Cons show ?thesis
      by (simp add: getRelevantLine_loop_Cons trapCount_Cons trapLine_def)
  next
    case True
    have e: "1 \<le> expansion T l" using Cons.prems(1) by (rule expansion_pos)
    have t: "0 \<le> instructionTotal T ls" by (rule instructionTotal_nonneg)
    from True Cons.prems e t have ne: "ic + 1 \<noteq> k" by simp
    from True Cons.prems have "ic + expansion T l + instructionTotal T ls < k" by simp
    from Cons.IH [OF Cons.prems(1) this] True ne show ?thesis
      by (simp add: getRelevantLine_loop_Cons trapCount_Cons)
  qed
qed

lemma loop_below:
  "k \<le> ic \<Longrightarrow> getRelevantLine_loop T k i ic nb ls = (- 1, nb + trapCount T ls)"
proof (induction ls arbitrary: i ic nb)
  case Nil
  then show ?case by (simp add: trapCount_Nil)
next
  case (Cons l ls)
  have e: "0 \<le> expansion T l" by (rule expansion_nonneg)
  with Cons.prems have "k \<le> ic + expansion T l" by simp
  from Cons.IH [OF this] Cons.IH [OF Cons.prems] Cons.prems show ?case
    by (simp add: getRelevantLine_loop_Cons trapCount_Cons trapLine_def)
qed

lemma find_map_list: "find P (map f xs) = map_option f (find (P \<circ> f) xs)"
  by (induction xs) auto


lemma loop_result:
  "getRelevantLine_loop T k i ic nb ls =
     (case find (startsAt T (k - ic) ls) [0..<length ls] of
        None \<Rightarrow> (- 1, nb + trapCount T ls)
      | Some j \<Rightarrow> (int (i + j), nb + trapCount T (take j ls)))"
proof (induction ls arbitrary: i ic nb)
  case Nil
  then show ?case by (simp add: trapCount_Nil)
next
  case (Cons l ls)
  have upt: "[0..<length (l # ls)] = 0 # map Suc [0..<length ls]"
    by (simp add: upt_conv_Cons map_Suc_upt del: upt_Suc)
  have shift: "startsAt T (k - ic) (l # ls) \<circ> Suc =
      startsAt T (k - (ic + (if instructionBearing T l then expansion T l else 0))) ls"
    by (auto simp: startsAt_def fun_eq_iff)
  have zero: "startsAt T (k - ic) (l # ls) 0 \<longleftrightarrow> instructionBearing T l \<and> ic + 1 = k"
    by (auto simp: startsAt_def)
  show ?case
  proof (cases "instructionBearing T l")
    case False
    with shift have sh: "startsAt T (k - ic) (l # ls) \<circ> Suc = startsAt T (k - ic) ls" by simp
    from False show ?thesis
      unfolding upt
      by (simp add: getRelevantLine_loop_Cons Cons.IH find_map_list sh zero trapCount_Cons trapCount_Nil trapLine_def
               split: option.splits del: upt_Suc)
  next
    case True
    with shift have sh: "startsAt T (k - ic) (l # ls) \<circ> Suc = startsAt T (k - (ic + expansion T l)) ls"
      by simp
    from True show ?thesis
      unfolding upt
      by (simp add: getRelevantLine_loop_Cons Cons.IH find_map_list sh zero trapCount_Cons trapCount_Nil
               split: option.splits del: upt_Suc)
  qed
qed

lemma not_bearing_empty: "\<not> instructionBearing T []"
  by (simp add: instructionBearing_def TrimSpace_def)

lemma loop_append_empty:
  "getRelevantLine_loop T k i ic nb (ls @ [[]]) = getRelevantLine_loop T k i ic nb ls"
  by (induction ls arbitrary: i ic nb)
     (simp_all add: getRelevantLine_loop_Cons not_bearing_empty)

lemma TrimSpace_ebreak: "TrimSpace ''ebreak'' = ''ebreak''"
  by (simp add: TrimSpace_def isSpace_def)

lemma Fields_ebreak: "Fields ''ebreak'' = [''ebreak'']"
  by (simp add: Fields_def isSpace_def)

lemma trapLine_ebreak: "trapLine T ''ebreak'' = instructionBearing T ''ebreak''"
  by (simp add: trapLine_def mnemonic_def TrimSpace_ebreak Fields_ebreak)

lemma expansion_ebreak: "trapIsReal T \<Longrightarrow> expansion T ''ebreak'' = 1"
  by (simp add: expansion_def mnemonic_def TrimSpace_ebreak Fields_ebreak trapIsReal_def)

lemma trapCount_withTraps: "trapCount T ls \<le> trapCount T (withTraps P i ls)"
proof (induction ls arbitrary: i)
  case Nil
  then show ?case by simp
next
  case (Cons l ls)
  from Cons [of "Suc i"] show ?case by (simp add: trapCount_Cons)
qed

lemma debug_scan_beyond:
  assumes E: "expansionsNonEmpty T" and R: "trapIsReal T"
  shows "ic_s + instructionTotal T ls < k \<Longrightarrow> nb_d - nb_s = ic_d - ic_s \<Longrightarrow> ic_s \<le> ic_d \<Longrightarrow>
         nb_s + trapCount T ls \<le> snd (getRelevantLine_loop T k i ic_d nb_d (withTraps P i' ls))"
proof (induction ls arbitrary: i i' ic_s nb_s ic_d nb_d)
  case Nil
  then show ?case by (simp add: trapCount_Nil)
next
  case (Cons l ls)
  let ?rest = "withTraps P (Suc i') ls"
  have tc: "trapCount T (l # ls) \<le> instructionTotal T (l # ls)"
    using E by (rule trapCount_le_total)
  have stepA: "nb_s + trapCount T (l # ls) \<le> snd (getRelevantLine_loop T k j c n (l # ?rest))"
    if inv: "n - nb_s = c - ic_s" and le: "ic_s \<le> c" for j c n
  proof (cases "instructionBearing T l")
    case False
    from Cons.prems(1) False have "ic_s + instructionTotal T ls < k" by simp
    from Cons.IH [OF this inv le, of "Suc j" "Suc i'"] False show ?thesis
      by (simp add: getRelevantLine_loop_Cons trapCount_Cons trapLine_def)
  next
    case True
    show ?thesis
    proof (cases "c + 1 = k")
      case eq: True
      with Cons.prems(1) inv tc have "nb_s + trapCount T (l # ls) \<le> n" by simp
      with True eq show ?thesis by (simp add: getRelevantLine_loop_Cons)
    next
      case ne: False
      from Cons.prems(1) True have lt: "(ic_s + expansion T l) + instructionTotal T ls < k" by simp
      have inv': "(n + (if trapLine T l then 1 else 0)) - (nb_s + (if trapLine T l then 1 else 0))
                  = (c + expansion T l) - (ic_s + expansion T l)"
        using inv by simp
      have le': "ic_s + expansion T l \<le> c + expansion T l" using le by simp
      from Cons.IH [OF lt inv' le', of "Suc j" "Suc i'"] True ne show ?thesis
        by (simp add: getRelevantLine_loop_Cons trapCount_Cons)
    qed
  qed
  show ?case
  proof (cases "P i' l")
    case False
    with stepA [OF Cons.prems(2) Cons.prems(3), of i] show ?thesis by simp
  next
    case trap: True
    show ?thesis
    proof (cases "instructionBearing T ''ebreak''")
      case False
      with trap stepA [OF Cons.prems(2) Cons.prems(3), of "Suc i"] show ?thesis
        by (simp add: getRelevantLine_loop_Cons)
    next
      case True
      show ?thesis
      proof (cases "ic_d + 1 = k")
        case eq: True
        with Cons.prems tc have "nb_s + trapCount T (l # ls) \<le> nb_d" by simp
        with trap True eq show ?thesis by (simp add: getRelevantLine_loop_Cons)
      next
        case ne: False
        have "(nb_d + 1) - nb_s = (ic_d + 1) - ic_s" "ic_s \<le> ic_d + 1"
          using Cons.prems(2,3) by simp_all
        from stepA [OF this, of "Suc i"] trap True ne show ?thesis
          by (simp add: getRelevantLine_loop_Cons trapLine_ebreak expansion_ebreak [OF R])
      qed
    qed
  qed
qed

lemma debugFileSplit_eq:
  "Split (debugFileContent T bps text) LF = withTraps (trapBefore T bps) 0 (Split text LF) @ [[]]"
proof -
  have "LF \<notin> set l" if "l \<in> set (withTraps (trapBefore T bps) 0 (Split text LF))" for l
  proof -
    from that set_withTraps have "l = ''ebreak'' \<or> l \<in> set (Split text LF)" by fastforce
    then show ?thesis using Split_no_sep by auto
  qed
  then show ?thesis
    by (simp add: debugFileContent_def debugCode_loop_eq Split_terminated)
qed

subsection \<open>The recent files\<close>

lemma findRecent_None: "findRecent p i xs = None \<longleftrightarrow> p \<notin> set xs"
  by (induction xs arbitrary: i) auto

lemma findRecent_Some:
  "findRecent p i xs = Some j \<Longrightarrow>
   i \<le> j \<and> j - i < length xs \<and> p # take (j - i) xs @ drop (Suc (j - i)) xs = p # remove1 p xs"
proof (induction xs arbitrary: i)
  case Nil
  then show ?case by simp
next
  case (Cons x xs)
  show ?case
  proof (cases "x = p")
    case True
    with Cons.prems show ?thesis by simp
  next
    case False
    with Cons.prems have f: "findRecent p (Suc i) xs = Some j" by simp
    from Cons.IH [OF f] have "Suc i \<le> j" "j - Suc i < length xs"
      "take (j - Suc i) xs @ drop (Suc (j - Suc i)) xs = remove1 p xs" by simp_all
    moreover from \<open>Suc i \<le> j\<close> have "j - i = Suc (j - Suc i)" by simp
    ultimately show ?thesis using False by simp
  qed
qed

lemma count_list_remove1:
  "p \<in> set xs \<Longrightarrow> count_list (remove1 p xs) p = count_list xs p - 1"
  by (induction xs) auto

lemma count_list_pos: "p \<in> set xs \<Longrightarrow> 0 < count_list xs p"
  by (induction xs) auto

lemma AddRecentFile_present:
  "p \<in> set (RecentFiles prefs) \<Longrightarrow>
   RecentFiles (AddRecentFile p prefs) = p # remove1 p (RecentFiles prefs)"
proof -
  assume m: "p \<in> set (RecentFiles prefs)"
  then obtain j where j: "findRecent p 0 (RecentFiles prefs) = Some j"
    using findRecent_None [of p 0 "RecentFiles prefs"] by (cases "findRecent p 0 (RecentFiles prefs)") auto
  from findRecent_Some [OF j] j show ?thesis
    by (simp add: AddRecentFile_def)
qed

lemma AddRecentFile_absent:
  "p \<notin> set (RecentFiles prefs) \<Longrightarrow>
   RecentFiles (AddRecentFile p prefs) = take 10 (p # RecentFiles prefs)"
  using findRecent_None [of p 0 "RecentFiles prefs"]
  by (simp add: AddRecentFile_def Let_def)

lemma concat_terminated_Join:
  "L \<noteq> [] \<Longrightarrow> concat (map (\<lambda>l. l @ [c]) L) = Join L c @ [c]"
proof (induction L)
  case Nil
  then show ?case by simp
next
  case (Cons l L)
  then show ?case by (cases L) auto
qed

lemma debugFileContent_lines:
  "debugFileContent T bps text =
     concat (map (\<lambda>l. l @ [LF]) (withTraps (trapBefore T bps) 0 (Split text LF)))"
  by (simp add: debugFileContent_def debugCode_loop_eq)

lemma countLines_offset:
  "length (withTraps P 0 ls) = length ls + countLines P ls"
  by (simp add: length_withTraps countLines_def)

subsection \<open>The result of the scanner and of the resolver\<close>

lemma getRelevantLine_find:
  "getRelevantLine T k lines =
     (case find (startsAt T k lines) [0..<length lines] of
        None \<Rightarrow> (- 1, trapCount T lines)
      | Some j \<Rightarrow> (int j, trapCount T (take j lines)))"
  by (simp add: getRelevantLine_def loop_result split: option.splits)

lemma getRelevantLine_found:
  assumes "fst (getRelevantLine T k lines) \<noteq> - 1"
  obtains j where "j < length lines"
    and "getRelevantLine T k lines = (int j, trapCount T (take j lines))"
    and "startsAt T k lines j"
    and "\<And>j'. j' < j \<Longrightarrow> \<not> startsAt T k lines j'"
proof -
  from assms obtain j where f: "find (startsAt T k lines) [0..<length lines] = Some j"
    by (cases "find (startsAt T k lines) [0..<length lines]") (auto simp: getRelevantLine_find)
  then obtain i where i: "i < length [0..<length lines]" "startsAt T k lines ([0..<length lines] ! i)"
    "j = [0..<length lines] ! i" "\<forall>i' < i. \<not> startsAt T k lines ([0..<length lines] ! i')"
    unfolding find_Some_iff by blast
  then have ji: "j = i" and jl: "j < length lines" by simp_all
  have "\<not> startsAt T k lines j'" if "j' < j" for j'
  proof -
    from that ji i(1) have "j' < i" "[0..<length lines] ! j' = j'" by simp_all
    with i(4) show ?thesis by metis
  qed
  moreover from f have "getRelevantLine T k lines = (int j, trapCount T (take j lines))"
    by (simp add: getRelevantLine_find)
  moreover from i(2,3) have "startsAt T k lines j" by simp
  ultimately show ?thesis using jl that by blast
qed

lemma getRelevantLine_none:
  assumes "\<And>j. j < length lines \<Longrightarrow> \<not> startsAt T k lines j"
  shows "getRelevantLine T k lines = (- 1, trapCount T lines)"
proof -
  from assms have "find (startsAt T k lines) [0..<length lines] = None"
    by (simp add: find_None_iff)
  then show ?thesis by (simp add: getRelevantLine_find)
qed

lemma HighlightLine_eq:
  "HighlightLine T k s =
     (let h = fst (getRelevantLine T k (realFileSplit s))
                + (snd (getRelevantLine T k (realFileSplit s))
                   - snd (getRelevantLine T k (debugFileSplit s)))
      in if h < 1 then s\<lparr>currentHighline := h\<rparr>
         else s\<lparr>currentHighline := h, cursorBlock := h,
                lineNumberAreaUpdates := Suc (lineNumberAreaUpdates s)\<rparr>)"
  by (simp add: HighlightLine_def Let_def split: prod.splits)

lemma highlight_beyond:
  assumes E: "expansionsNonEmpty T" and R: "trapIsReal T"
    and k: "k \<le> 0 \<or> instructionTotal T (Split text LF) < k"
  shows "fst (getRelevantLine T k (realFileSplit (debugCode T text s)))
           + (snd (getRelevantLine T k (realFileSplit (debugCode T text s)))
              - snd (getRelevantLine T k (debugFileSplit (debugCode T text s)))) \<le> - 1"
proof -
  let ?src = "Split text LF"
  let ?dbg = "withTraps (trapBefore T (breakpoints s)) 0 ?src"
  have src: "getRelevantLine T k ?src = (- 1, trapCount T ?src)"
    using k loop_below [of k 0 T 0 0 ?src] loop_beyond [OF E, of 0 ?src k 0 0]
    by (auto simp: getRelevantLine_def)
  have dbg: "trapCount T ?src \<le> snd (getRelevantLine T k (?dbg @ [[]]))"
  proof (cases "k \<le> 0")
    case True
    then show ?thesis
      using loop_below [of k 0 T 0 0 ?dbg] trapCount_withTraps [of T ?src]
      by (simp add: getRelevantLine_def loop_append_empty)
  next
    case False
    with k have "0 + instructionTotal T ?src < k" by simp
    then have "0 + trapCount T ?src \<le> snd (getRelevantLine_loop T k 0 0 0 ?dbg)"
      by (rule debug_scan_beyond [OF E R]) simp_all
    then show ?thesis
      by (simp add: getRelevantLine_def loop_append_empty)
  qed
  show ?thesis
    using src dbg by (simp add: debugCode_def debugFileSplit_eq)
qed

subsection \<open>The example tables\<close>

lemma exampleTables_nonEmpty: "expansionsNonEmpty exampleTables"
  by (auto simp: expansionsNonEmpty_def exampleTables_def split: if_splits)

lemma exampleTables_trapIsReal: "trapIsReal exampleTables"
  by (simp add: trapIsReal_def exampleTables_def)

section \<open>The line of the instruction to highlight\<close>

text \<open>
  C1. For every instruction number \<open>k\<close> and every pair of line lists held by the session,
  \<open>HighlightLine\<close> stores as the highlighted line the line found in the original text plus the
  difference between the trap count of the scan of the original text and the trap count of
  the scan of the instrumented text.
\<close>

theorem HighlightLine_formula:
  "currentHighline (HighlightLine T k s) =
     fst (getRelevantLine T k (realFileSplit s))
       + (snd (getRelevantLine T k (realFileSplit s)) - snd (getRelevantLine T k (debugFileSplit s)))"
  by (simp add: HighlightLine_eq Let_def)

text \<open>
  C2, as the specification states it, fails: the scanner does not return the line at which the
  counter first reaches or passes \<open>k\<close>. It compares the counter with \<open>k\<close> once for each
  instruction-bearing line, after counting the first real instruction of the line and before
  adding the rest of an expansion. With \<open>la\<close> lowering to two real instructions at line 1,
  the target 1 gives line 1, and the target 2 gives \<open>-1\<close> although the counter reaches 2 at
  line 1.
\<close>

theorem scanner_inside_expansion_counterexample:
  "find (reachesOrPasses exampleTables 2 [''# data'', ''la a1, message'', ''ecall'']) [0..<3] = Some 1
   \<and> fst (getRelevantLine exampleTables 1 [''# data'', ''la a1, message'', ''ecall'']) = 1
   \<and> fst (getRelevantLine exampleTables 2 [''# data'', ''la a1, message'', ''ecall'']) = - 1"
  by code_simp

text \<open>
  C2, amended. For every line sequence and every target \<open>k\<close>, \<open>getRelevantLine\<close> returns the
  index of the first instruction-bearing line that starts the \<open>k\<close>-th real instruction (the
  lines before it hold exactly \<open>k - 1\<close> real instructions), and \<open>-1\<close> when there is no such
  line; in particular, when \<open>k\<close> falls strictly inside the expansion of the pseudo-instruction of
  line \<open>j\<close> (after its first real instruction), the result is \<open>-1\<close> and not \<open>j\<close>.
\<close>

theorem getRelevantLine_exact_start:
  "fst (getRelevantLine T k lines) =
     (case find (startsAt T k lines) [0..<length lines] of None \<Rightarrow> - 1 | Some j \<Rightarrow> int j)
   \<and> (j < length lines \<and> instructionBearing T (lines ! j)
        \<and> instructionTotal T (take j lines) + 1 < k
        \<and> k \<le> instructionTotal T (take (Suc j) lines)
      \<longrightarrow> fst (getRelevantLine T k lines) = - 1)"
proof (intro conjI impI)
  show "fst (getRelevantLine T k lines) =
     (case find (startsAt T k lines) [0..<length lines] of None \<Rightarrow> - 1 | Some j \<Rightarrow> int j)"
    by (simp add: getRelevantLine_find split: option.splits)
next
  assume a: "j < length lines \<and> instructionBearing T (lines ! j)
        \<and> instructionTotal T (take j lines) + 1 < k
        \<and> k \<le> instructionTotal T (take (Suc j) lines)"
  have "\<not> startsAt T k lines j'" for j'
  proof (cases "j' \<le> j")
    case True
    then have "instructionTotal T (take j' lines) \<le> instructionTotal T (take j lines)"
      by (rule instructionTotal_take_mono)
    with a show ?thesis by (simp add: startsAt_def)
  next
    case False
    then have "Suc j \<le> j'" by simp
    then have "instructionTotal T (take (Suc j) lines) \<le> instructionTotal T (take j' lines)"
      by (rule instructionTotal_take_mono)
    with a show ?thesis by (simp add: startsAt_def)
  qed
  then show "fst (getRelevantLine T k lines) = - 1"
    by (simp add: getRelevantLine_none)
qed

theorem getRelevantLine_exact_start_witness:
  "(1 < length [''# data'', ''la a1, message'', ''ecall'']
      \<and> instructionBearing exampleTables ([''# data'', ''la a1, message'', ''ecall''] ! 1)
      \<and> instructionTotal exampleTables (take 1 [''# data'', ''la a1, message'', ''ecall'']) + 1 < 2
      \<and> 2 \<le> instructionTotal exampleTables (take (Suc 1) [''# data'', ''la a1, message'', ''ecall'']))
   \<and> find (startsAt exampleTables 2 [''# data'', ''la a1, message'', ''ecall'']) [0..<3] = None
   \<and> fst (getRelevantLine exampleTables 2 [''# data'', ''la a1, message'', ''ecall'']) = - 1"
proof -
  have h: "1 < length [''# data'', ''la a1, message'', ''ecall'']
      \<and> instructionBearing exampleTables ([''# data'', ''la a1, message'', ''ecall''] ! 1)
      \<and> instructionTotal exampleTables (take 1 [''# data'', ''la a1, message'', ''ecall'']) + 1 < 2
      \<and> 2 \<le> instructionTotal exampleTables (take (Suc 1) [''# data'', ''la a1, message'', ''ecall''])"
    by code_simp
  have f: "find (startsAt exampleTables 2 [''# data'', ''la a1, message'', ''ecall'']) [0..<3] = None"
    by code_simp
  from getRelevantLine_exact_start
         [of exampleTables 2 "[''# data'', ''la a1, message'', ''ecall'']" 1] h f
  show ?thesis by blast
qed

section \<open>The text with the traps\<close>

text \<open>
  C3. For every text and every breakpoint map, the builders emit exactly one \<open>ebreak\<close> line
  immediately before each instruction-bearing line whose index is a breakpoint, and every
  original line after it, unmodified and in the original order, so that the original lines
  are a subsequence of the output. The loop of \<open>debugCode\<close> writes, each followed by a line
  feed, the original lines with a trap before exactly those lines; \<open>insertBreakpoints\<close> writes
  (\<open>debugAsmContent\<close>, when a file is open) the original lines with a trap before every line
  whose index is a key of the map, which includes those lines.
\<close>

theorem builders_emit_traps:
  "debugFileContent T bps text =
     concat (map (\<lambda>l. l @ [LF]) (withTraps (trapBefore T bps) 0 (Split text LF)))
   \<and> subseq (Split text LF) (withTraps (trapBefore T bps) 0 (Split text LF))
   \<and> subseq (Split text LF) (Split (debugFileContent T bps text) LF)
   \<and> Split (debugAsmContent bps text) LF = withTraps (isKey bps) 0 (Split text LF)
   \<and> (trapBefore T bps i l \<longrightarrow> isKey bps i l)
   \<and> subseq (Split text LF) (Split (debugAsmContent bps text) LF)"
proof (intro conjI impI)
  show "debugFileContent T bps text =
     concat (map (\<lambda>l. l @ [LF]) (withTraps (trapBefore T bps) 0 (Split text LF)))"
    by (rule debugFileContent_lines)
  show "subseq (Split text LF) (withTraps (trapBefore T bps) 0 (Split text LF))"
    by (rule subseq_withTraps)
  have "subseq (Split text LF @ []) (withTraps (trapBefore T bps) 0 (Split text LF) @ [[]])"
    by (intro list_emb_append_mono subseq_withTraps) simp
  then show "subseq (Split text LF) (Split (debugFileContent T bps text) LF)"
    by (simp add: debugFileSplit_eq)
  show "Split (debugAsmContent bps text) LF = withTraps (isKey bps) 0 (Split text LF)"
    by (rule Split_debugAsmContent)
  then show "subseq (Split text LF) (Split (debugAsmContent bps text) LF)"
    by (simp add: subseq_withTraps)
  show "isKey bps i l" if "trapBefore T bps i l"
    using that by (rule trapBefore_isKey)
qed

theorem builders_emit_traps_witness:
  "trapBefore exampleTables [2 \<mapsto> True] 2 ''ecall''
   \<and> isKey [2 \<mapsto> True] 2 ''ecall''
   \<and> debugFileContent exampleTables [2 \<mapsto> True]
        (''li a0, 1'' @ [LF] @ ''# comment'' @ [LF] @ ''ecall'')
      = ''li a0, 1'' @ [LF] @ ''# comment'' @ [LF] @ ''ebreak'' @ [LF] @ ''ecall'' @ [LF]
   \<and> Split (debugAsmContent [2 \<mapsto> True] (''li a0, 1'' @ [LF] @ ''# comment'' @ [LF] @ ''ecall'')) LF
      = [''li a0, 1'', ''# comment'', ''ebreak'', ''ecall'']"
proof -
  have t: "trapBefore exampleTables [2 \<mapsto> True] 2 ''ecall''"
    by code_simp
  have w: "withTraps (trapBefore exampleTables [2 \<mapsto> True]) 0
             (Split (''li a0, 1'' @ [LF] @ ''# comment'' @ [LF] @ ''ecall'') LF)
           = [''li a0, 1'', ''# comment'', ''ebreak'', ''ecall'']"
    by code_simp
  have v: "withTraps (isKey [2 \<mapsto> True]) 0
             (Split (''li a0, 1'' @ [LF] @ ''# comment'' @ [LF] @ ''ecall'') LF)
           = [''li a0, 1'', ''# comment'', ''ebreak'', ''ecall'']"
    by code_simp
  from builders_emit_traps [of exampleTables "[2 \<mapsto> True]"
         "''li a0, 1'' @ [LF] @ ''# comment'' @ [LF] @ ''ecall''" 2 "''ecall''"] t
  show ?thesis unfolding w v by simp
qed

text \<open>
  C4, as the specification states it, fails. The line list that \<open>debugCode\<close> derives from the
  text it has built has one element more than the source lines and the traps, because the
  text ends with a line feed; and \<open>insertBreakpoints\<close> adds a trap for a breakpoint on a line
  that is not instruction-bearing.
\<close>

theorem instrumented_length_counterexample:
  "length (debugFileSplit (debugCode exampleTables ''ecall'' (idleSession Map.empty)))
     \<noteq> length (Split ''ecall'' LF)
         + countLines (trapBefore exampleTables Map.empty) (Split ''ecall'' LF)
   \<and> length (Split (debugAsmContent [0 \<mapsto> True] (''# note'' @ [LF] @ ''ecall'')) LF)
     \<noteq> length (Split (''# note'' @ [LF] @ ''ecall'') LF)
         + countLines (trapBefore exampleTables [0 \<mapsto> True]) (Split (''# note'' @ [LF] @ ''ecall'') LF)"
  by code_simp

text \<open>
  C4, amended. For every text and every breakpoint map, the loop of \<open>debugCode\<close> writes as many
  lines, each ended by a line feed, as there are source lines plus breakpoints on
  instruction-bearing lines; so \<open>debugFileSplit\<close>, the list obtained by splitting that text at
  the line feeds, has that length plus one (its last element is the empty string). The text
  of \<open>insertBreakpoints\<close> splits into as many lines as there are source lines plus keys of the
  breakpoint map that are indices of the text. No output is shorter than the input.
\<close>

theorem instrumented_length:
  "debugFileContent T (breakpoints s) text =
     concat (map (\<lambda>l. l @ [LF]) (withTraps (trapBefore T (breakpoints s)) 0 (Split text LF)))
   \<and> length (withTraps (trapBefore T (breakpoints s)) 0 (Split text LF))
       = length (Split text LF) + countLines (trapBefore T (breakpoints s)) (Split text LF)
   \<and> length (debugFileSplit (debugCode T text s))
       = length (realFileSplit (debugCode T text s))
         + countLines (trapBefore T (breakpoints s)) (realFileSplit (debugCode T text s)) + 1
   \<and> length (Split (debugAsmContent bps text) LF)
       = length (Split text LF) + countLines (isKey bps) (Split text LF)"
proof (intro conjI)
  show "debugFileContent T (breakpoints s) text =
     concat (map (\<lambda>l. l @ [LF]) (withTraps (trapBefore T (breakpoints s)) 0 (Split text LF)))"
    by (rule debugFileContent_lines)
  show "length (withTraps (trapBefore T (breakpoints s)) 0 (Split text LF))
       = length (Split text LF) + countLines (trapBefore T (breakpoints s)) (Split text LF)"
    by (rule countLines_offset)
  show "length (debugFileSplit (debugCode T text s))
       = length (realFileSplit (debugCode T text s))
         + countLines (trapBefore T (breakpoints s)) (realFileSplit (debugCode T text s)) + 1"
    by (simp add: debugCode_def debugFileSplit_eq countLines_offset)
  show "length (Split (debugAsmContent bps text) LF)
       = length (Split text LF) + countLines (isKey bps) (Split text LF)"
    by (simp add: Split_debugAsmContent countLines_offset)
qed

text \<open>
  C9, as the specification states it, fails for \<open>debugCode\<close>: with no breakpoint, the line list
  derived from the text it has built is the source line list followed by an empty string,
  and the empty text gives two empty lines.
\<close>

theorem no_breakpoints_counterexample:
  "debugFileSplit (debugCode exampleTables ''ecall'' (idleSession Map.empty))
     \<noteq> realFileSplit (debugCode exampleTables ''ecall'' (idleSession Map.empty))
   \<and> debugFileSplit (debugCode exampleTables [] (idleSession Map.empty)) = [[], []]"
  by code_simp

text \<open>
  C9, amended. For every text, with an empty breakpoint map the loop of \<open>debugCode\<close> writes
  exactly the source lines, each ended by a line feed: the text it builds is the source text
  followed by one line feed, and \<open>debugFileSplit\<close> is the source line list followed by one
  empty string. With an empty breakpoint map \<open>insertBreakpoints\<close> writes the source text
  unchanged, so its lines are the source lines.
\<close>

theorem no_breakpoints_builder:
  "debugFileContent T Map.empty text = concat (map (\<lambda>l. l @ [LF]) (Split text LF))
   \<and> debugFileContent T Map.empty text = text @ [LF]
   \<and> debugFileSplit (debugCode T text (s\<lparr>breakpoints := Map.empty\<rparr>))
       = realFileSplit (debugCode T text (s\<lparr>breakpoints := Map.empty\<rparr>)) @ [[]]
   \<and> debugAsmContent Map.empty text = text
   \<and> Split (debugAsmContent Map.empty text) LF = Split text LF"
proof (intro conjI)
  have n: "withTraps (trapBefore T Map.empty) 0 ls = ls" for ls
    by (rule withTraps_none) (simp add: trapBefore_def mapIndex_def)
  show c: "debugFileContent T Map.empty text = concat (map (\<lambda>l. l @ [LF]) (Split text LF))"
    by (simp add: debugFileContent_lines n)
  show "debugFileContent T Map.empty text = text @ [LF]"
    unfolding c by (simp add: concat_terminated_Join Split_not_Nil Join_Split)
  show "debugFileSplit (debugCode T text (s\<lparr>breakpoints := Map.empty\<rparr>))
       = realFileSplit (debugCode T text (s\<lparr>breakpoints := Map.empty\<rparr>)) @ [[]]"
    by (simp add: debugCode_def debugFileSplit_eq n)
  show "debugAsmContent Map.empty text = text"
    by (rule debugAsmContent_empty)
  then show "Split (debugAsmContent Map.empty text) LF = Split text LF"
    by simp
qed

section \<open>Targets outside the text\<close>

text \<open>
  Targets without a line. For every text and every breakpoint map of a session prepared by
  \<open>debugCode\<close>, resolving the instruction number 0, or one greater than the total instruction
  count of the text, computes a negative line: the text cursor is not moved, no repaint is
  requested and the paint handler finds the stored line equal to no block number. In any
  session, a computed line below 1 makes \<open>HighlightLine\<close> return before moving the cursor and
  before requesting the repaint, and a negative one is painted at no block. The tables are
  assumed to expand every pseudo-instruction to at least one real instruction and not to
  list the trap mnemonic as a pseudo-instruction.
\<close>

lemma HighlightLine_suppressed:
  assumes "expansionsNonEmpty T" and "trapIsReal T"
  shows "(k = 0 \<or> instructionTotal T (Split editorText LF) < k \<longrightarrow>
            currentHighline (HighlightLine T k (debugCode T editorText s)) < 1
            \<and> \<not> paintsHighlight d (HighlightLine T k (debugCode T editorText s)) b
            \<and> cursorBlock (HighlightLine T k (debugCode T editorText s)) = cursorBlock s
            \<and> lineNumberAreaUpdates (HighlightLine T k (debugCode T editorText s))
                = lineNumberAreaUpdates s)
       \<and> (currentHighline (HighlightLine T k s') < 1 \<longrightarrow>
            cursorBlock (HighlightLine T k s') = cursorBlock s'
            \<and> lineNumberAreaUpdates (HighlightLine T k s') = lineNumberAreaUpdates s')
       \<and> (currentHighline (HighlightLine T k s') < 0 \<longrightarrow>
            \<not> paintsHighlight d (HighlightLine T k s') b)"
proof (intro conjI impI)
  assume "k = 0 \<or> instructionTotal T (Split editorText LF) < k"
  then have k: "k \<le> 0 \<or> instructionTotal T (Split editorText LF) < k" by auto
  have d: "cursorBlock (debugCode T editorText s) = cursorBlock s"
    "lineNumberAreaUpdates (debugCode T editorText s) = lineNumberAreaUpdates s"
    by (simp_all add: debugCode_def)
  from highlight_beyond [OF assms k, of s]
  show "currentHighline (HighlightLine T k (debugCode T editorText s)) < 1"
    and "\<not> paintsHighlight d (HighlightLine T k (debugCode T editorText s)) b"
    and "cursorBlock (HighlightLine T k (debugCode T editorText s)) = cursorBlock s"
    and "lineNumberAreaUpdates (HighlightLine T k (debugCode T editorText s)) = lineNumberAreaUpdates s"
    by (simp_all add: HighlightLine_eq Let_def d paintsHighlight_def)
next
  assume "currentHighline (HighlightLine T k s') < 1"
  then show "cursorBlock (HighlightLine T k s') = cursorBlock s'"
    and "lineNumberAreaUpdates (HighlightLine T k s') = lineNumberAreaUpdates s'"
    by (simp_all add: HighlightLine_eq Let_def split: if_splits)
next
  assume "currentHighline (HighlightLine T k s') < 0"
  then show "\<not> paintsHighlight d (HighlightLine T k s') b"
    by (simp add: paintsHighlight_def)
qed


text \<open>
  C6. For every line sequence and every target \<open>k\<close> strictly greater than its total
  instruction count, \<open>getRelevantLine\<close> returns the index \<open>-1\<close> (with the number of all trap
  lines of the sequence): it returns, and returns no index of the sequence. The tables are
  assumed to expand every pseudo-instruction to at least one real instruction, and the
  expansion function of the assembler to return.
\<close>

theorem getRelevantLine_beyond:
  assumes "expansionsNonEmpty T" and "instructionTotal T lines < k"
  shows "getRelevantLine T k lines = (- 1, trapCount T lines)"
  using loop_beyond [OF assms(1), of 0 lines k 0 0] assms(2)
  by (simp add: getRelevantLine_def)

theorem getRelevantLine_beyond_witness:
  "expansionsNonEmpty exampleTables
   \<and> instructionTotal exampleTables [''la a1, message'', ''ebreak'', ''ecall''] < 5
   \<and> getRelevantLine exampleTables 5 [''la a1, message'', ''ebreak'', ''ecall''] = (- 1, 1)"
proof -
  have t: "instructionTotal exampleTables [''la a1, message'', ''ebreak'', ''ecall''] < 5"
    by code_simp
  have c: "trapCount exampleTables [''la a1, message'', ''ebreak'', ''ecall''] = 1"
    by code_simp
  from getRelevantLine_beyond [OF exampleTables_nonEmpty t] c exampleTables_nonEmpty t
  show ?thesis by simp
qed

section \<open>The trap counter and the order of the lines\<close>

text \<open>
  C7, as the specification states it, fails: the trap counter that is returned does not
  include the returned line. The scan of a text whose first line is a trap returns, for the
  target 1, the line 0 with the counter 0, and one trap line lies at or before line 0.
\<close>

theorem trap_counter_counterexample:
  "getRelevantLine exampleTables 1 [''ebreak'', ''ecall''] = (0, 0)
   \<and> trapCount exampleTables (take (Suc 0) [''ebreak'', ''ecall'']) = 1"
  by code_simp

text \<open>
  C7, amended. For every line sequence and every target \<open>k\<close> for which a line is found, the
  returned index is an index of the sequence and the returned trap counter is the number of
  trap lines (instruction-bearing lines with the mnemonic \<open>ebreak\<close>) strictly before the
  returned line; the returned line itself is not counted.
\<close>

theorem getRelevantLine_traps_before:
  assumes "fst (getRelevantLine T k lines) \<noteq> - 1"
  shows "0 \<le> fst (getRelevantLine T k lines)
       \<and> fst (getRelevantLine T k lines) < int (length lines)
       \<and> snd (getRelevantLine T k lines)
           = trapCount T (take (nat (fst (getRelevantLine T k lines))) lines)"
proof -
  from assms obtain j where "j < length lines"
    "getRelevantLine T k lines = (int j, trapCount T (take j lines))"
    by (rule getRelevantLine_found) blast
  then show ?thesis by simp
qed

theorem getRelevantLine_traps_before_witness:
  "fst (getRelevantLine exampleTables 3 [''ebreak'', ''ebreak'', ''ecall'']) \<noteq> - 1
   \<and> getRelevantLine exampleTables 3 [''ebreak'', ''ebreak'', ''ecall''] = (2, 2)
   \<and> trapCount exampleTables (take (nat 2) [''ebreak'', ''ebreak'', ''ecall'']) = 2"
proof -
  have r: "getRelevantLine exampleTables 3 [''ebreak'', ''ebreak'', ''ecall''] = (2, 2)"
    by code_simp
  then have f: "fst (getRelevantLine exampleTables 3 [''ebreak'', ''ebreak'', ''ecall'']) \<noteq> - 1"
    by simp
  from getRelevantLine_traps_before [OF f] r f show ?thesis by simp
qed

text \<open>
  C8, as the specification states it, fails: the returned index falls to \<open>-1\<close> for a target
  inside an expansion or beyond the text. With \<open>la\<close> lowering to two real instructions, the
  targets 1, 2 and 3 give the indices 0, \<open>-1\<close> and 1.
\<close>

theorem monotonic_scan_counterexample:
  "(1 :: int) \<le> 2
   \<and> \<not> fst (getRelevantLine exampleTables 1 [''la a1, message'', ''ecall''])
        \<le> fst (getRelevantLine exampleTables 2 [''la a1, message'', ''ecall''])
   \<and> fst (getRelevantLine exampleTables 3 [''la a1, message'', ''ecall'']) = 1"
  by code_simp

text \<open>
  C8, amended. For every fixed line sequence, the index returned by \<open>getRelevantLine\<close> is
  non-decreasing in the target over the targets for which a line is found (those that
  return an index other than \<open>-1\<close>).
\<close>

theorem getRelevantLine_monotone_found:
  assumes "k1 \<le> k2"
    and "fst (getRelevantLine T k1 lines) \<noteq> - 1"
    and "fst (getRelevantLine T k2 lines) \<noteq> - 1"
  shows "fst (getRelevantLine T k1 lines) \<le> fst (getRelevantLine T k2 lines)"
proof -
  from assms(2) obtain j1 where j1: "getRelevantLine T k1 lines = (int j1, trapCount T (take j1 lines))"
    "startsAt T k1 lines j1" "\<And>j'. j' < j1 \<Longrightarrow> \<not> startsAt T k1 lines j'"
    by (rule getRelevantLine_found) blast
  from assms(3) obtain j2 where j2: "getRelevantLine T k2 lines = (int j2, trapCount T (take j2 lines))"
    "startsAt T k2 lines j2"
    by (rule getRelevantLine_found) blast
  have "j1 \<le> j2"
  proof (rule ccontr)
    assume "\<not> j1 \<le> j2"
    then have lt: "j2 < j1" by simp
    then have "instructionTotal T (take j2 lines) \<le> instructionTotal T (take j1 lines)"
      by (intro instructionTotal_take_mono) simp
    moreover from j1(2) have "instructionTotal T (take j1 lines) + 1 = k1"
      by (simp add: startsAt_def split: if_splits)
    moreover from j2(2) have b: "instructionBearing T (lines ! j2)"
      and "instructionTotal T (take j2 lines) + 1 = k2"
      by (simp_all add: startsAt_def split: if_splits)
    ultimately have "instructionTotal T (take j2 lines) + 1 = k1" using assms(1) by simp
    with b have "startsAt T k1 lines j2" by (simp add: startsAt_def)
    with j1(3) [OF lt] show False by simp
  qed
  with j1(1) j2(1) show ?thesis by simp
qed

theorem getRelevantLine_monotone_found_witness:
  "(1 :: int) \<le> 3
   \<and> fst (getRelevantLine exampleTables 1 [''la a1, message'', ''ecall'']) = 0
   \<and> fst (getRelevantLine exampleTables 3 [''la a1, message'', ''ecall'']) = 1
   \<and> fst (getRelevantLine exampleTables 1 [''la a1, message'', ''ecall''])
        \<le> fst (getRelevantLine exampleTables 3 [''la a1, message'', ''ecall''])"
proof -
  have a: "fst (getRelevantLine exampleTables 1 [''la a1, message'', ''ecall'']) = 0"
    by code_simp
  have b: "fst (getRelevantLine exampleTables 3 [''la a1, message'', ''ecall'']) = 1"
    by code_simp
  have "(1 :: int) \<le> 3" by simp
  from getRelevantLine_monotone_found [OF this, of exampleTables "[''la a1, message'', ''ecall'']"] a b
  show ?thesis by simp
qed

section \<open>The list of recent files\<close>

text \<open>
  C10, as stated, fails on a list that already holds the path more than once: only the first
  occurrence is removed before the path is put in front.
\<close>

theorem recent_files_counterexample:
  "length [''a.asm'', ''b.asm'', ''a.asm''] \<le> 10
   \<and> RecentFiles (AddRecentFile ''a.asm''
        \<lparr>LastOpenedProject = [], RecentFiles = [''a.asm'', ''b.asm'', ''a.asm'']\<rparr>)
      = [''a.asm'', ''b.asm'', ''a.asm'']
   \<and> count_list (RecentFiles (AddRecentFile ''a.asm''
        \<lparr>LastOpenedProject = [], RecentFiles = [''a.asm'', ''b.asm'', ''a.asm'']\<rparr>)) ''a.asm'' = 2"
  by code_simp

text \<open>
  C10, amended. For every starting list of recent files of length at most 10 and every path,
  after \<open>AddRecentFile\<close> the list has length at most 10 and its first element is the path; the
  path occurs in it as often as before when it was present and once when it was not, hence
  exactly once whenever the starting list holds it at most once; if the path was present,
  its first occurrence is moved to the front and the other entries keep their order.
\<close>

theorem AddRecentFile_front:
  assumes "length (RecentFiles prefs) \<le> 10"
  shows "length (RecentFiles (AddRecentFile p prefs)) \<le> 10
       \<and> RecentFiles (AddRecentFile p prefs) \<noteq> []
       \<and> hd (RecentFiles (AddRecentFile p prefs)) = p
       \<and> count_list (RecentFiles (AddRecentFile p prefs)) p = max 1 (count_list (RecentFiles prefs) p)
       \<and> (count_list (RecentFiles prefs) p \<le> 1 \<longrightarrow>
            count_list (RecentFiles (AddRecentFile p prefs)) p = 1)
       \<and> (p \<in> set (RecentFiles prefs) \<longrightarrow>
            RecentFiles (AddRecentFile p prefs) = p # remove1 p (RecentFiles prefs))
       \<and> (p \<notin> set (RecentFiles prefs) \<longrightarrow>
            RecentFiles (AddRecentFile p prefs) = take 10 (p # RecentFiles prefs))"
proof (cases "p \<in> set (RecentFiles prefs)")
  case True
  have "length (remove1 p (RecentFiles prefs)) = length (RecentFiles prefs) - 1"
    using True by (simp add: length_remove1)
  moreover have "0 < length (RecentFiles prefs)" using True by (cases "RecentFiles prefs") auto
  ultimately show ?thesis
    using True assms count_list_pos [OF True]
    by (simp add: AddRecentFile_present count_list_remove1)
next
  case False
  have c: "count_list (take 9 (RecentFiles prefs)) p = 0"
    using False by (meson count_list_0_iff in_set_takeD)
  have "count_list (RecentFiles prefs) p = 0" using False by (simp add: count_list_0_iff)
  with False c show ?thesis
    by (simp add: AddRecentFile_absent)
qed

theorem AddRecentFile_front_witness:
  "length (RecentFiles \<lparr>LastOpenedProject = [], RecentFiles = [''a.asm'', ''b.asm'', ''c.asm'']\<rparr>) \<le> 10
   \<and> count_list [''a.asm'', ''b.asm'', ''c.asm''] ''c.asm'' \<le> 1
   \<and> ''c.asm'' \<in> set [''a.asm'', ''b.asm'', ''c.asm'']
   \<and> RecentFiles (AddRecentFile ''c.asm''
        \<lparr>LastOpenedProject = [], RecentFiles = [''a.asm'', ''b.asm'', ''c.asm'']\<rparr>)
      = [''c.asm'', ''a.asm'', ''b.asm'']"
proof -
  have l: "length (RecentFiles \<lparr>LastOpenedProject = [], RecentFiles = [''a.asm'', ''b.asm'', ''c.asm'']\<rparr>) \<le> 10"
    by simp
  from AddRecentFile_front [OF l, of "''c.asm''"] show ?thesis by simp
qed

end
